theory Spec2Isabelle
  imports Main
begin

section \<open>Python strings\<close>

text \<open>
  A Python \<open>str\<close> is modelled as a \<open>string\<close>: one \<open>char\<close> per code point,
  for texts whose code points are below 256. The functions below are the
  \<open>str\<close> methods the monitoring code calls.
\<close>

text \<open>\<open>c.isspace()\<close> for the code points below 256.\<close>

definition is_space :: "char \<Rightarrow> bool" where
  "is_space c = (c \<in> set [CHR '' '', CHR 0x09, CHR 0x0A, CHR 0x0B, CHR 0x0C, CHR 0x0D,
                           CHR 0x1C, CHR 0x1D, CHR 0x1E, CHR 0x1F, CHR 0x85, CHR 0xA0])"

text \<open>\<open>s.strip()\<close>: leading and trailing whitespace removed.\<close>

definition strip :: "string \<Rightarrow> string" where
  "strip s = rev (dropWhile is_space (rev (dropWhile is_space s)))"

text \<open>
  \<open>s.split()\<close>: the maximal runs of non-whitespace, in order. \<open>split_ws_aux cur s\<close>
  scans \<open>s\<close> with the field being read held reversed in \<open>cur\<close>.
\<close>

fun split_ws_aux :: "string \<Rightarrow> string \<Rightarrow> string list" where
  "split_ws_aux cur [] = (if cur = [] then [] else [rev cur])"
| "split_ws_aux cur (c # cs) =
     (if is_space c then (if cur = [] then split_ws_aux [] cs else rev cur # split_ws_aux [] cs)
      else split_ws_aux (c # cur) cs)"

definition split_ws :: "string \<Rightarrow> string list" where
  "split_ws s = split_ws_aux [] s"

text \<open>\<open>s.split(sep)\<close> for a separator of one character: \<open>n\<close> separators give \<open>n + 1\<close> pieces.\<close>

fun split_on :: "char \<Rightarrow> string \<Rightarrow> string list" where
  "split_on sep [] = [[]]"
| "split_on sep (c # cs) =
     (if c = sep then [] # split_on sep cs
      else (case split_on sep cs of [] \<Rightarrow> [[c]] | w # ws \<Rightarrow> (c # w) # ws))"

abbreviation newline :: char where
  "newline \<equiv> CHR 0x0A"

text \<open>\<open>s.startswith(p)\<close>.\<close>

fun startswith :: "string \<Rightarrow> string \<Rightarrow> bool" where
  "startswith s [] = True"
| "startswith [] (p # ps) = False"
| "startswith (c # cs) (p # ps) = (c = p \<and> startswith cs ps)"

text \<open>\<open>sub in s\<close>.\<close>

fun contains :: "string \<Rightarrow> string \<Rightarrow> bool" where
  "contains sub [] = (sub = [])"
| "contains sub (c # cs) = (startswith (c # cs) sub \<or> contains sub cs)"

text \<open>
  \<open>s.count(sub)\<close>: the occurrences of \<open>sub\<close> found scanning from the left, the scan
  resuming after each occurrence (so they do not overlap); the empty \<open>sub\<close> is found
  \<open>len(s) + 1\<close> times.
\<close>

fun count_sub :: "string \<Rightarrow> string \<Rightarrow> int" where
  "count_sub sub [] = (if sub = [] then 1 else 0)"
| "count_sub sub (c # cs) =
     (if sub = [] then 1 + count_sub sub cs
      else if startswith (c # cs) sub then 1 + count_sub sub (drop (length sub - 1) cs)
      else count_sub sub cs)"

section \<open>Counting sessions in the output of \<open>show ip bgp summary\<close>\<close>

text \<open>
  The dashboards carry their own copy of the counting loop. Each loop is a
  recursion over the lines with the two counters as accumulator.

  \<open>netsec_dashboard.py\<close>, \<open>DataCollectionThread.collect_network_data\<close>:
  \<^verbatim>\<open>
  for line in lines:
      if line.strip() and '.' in line and len(line.split()) >= 8:
          parts = line.split()
          if len(parts) >= 10 and parts[0].count('.') == 3:
              neighbor_count += 1
              if "(Policy)" not in line:
                  established_count += 1
  \<close>
\<close>

fun count_loop :: "string list \<Rightarrow> int \<times> int \<Rightarrow> int \<times> int" where
  "count_loop [] (neighbor_count, established_count) = (neighbor_count, established_count)"
| "count_loop (line # lines) (neighbor_count, established_count) =
     (if strip line \<noteq> [] \<and> contains ''.'' line \<and> 8 \<le> length (split_ws line) then
        (let parts = split_ws line in
         if 10 \<le> length parts \<and> count_sub ''.'' (parts ! 0) = 3 then
           (if \<not> contains ''(Policy)'' line
            then count_loop lines (neighbor_count + 1, established_count + 1)
            else count_loop lines (neighbor_count + 1, established_count))
         else count_loop lines (neighbor_count, established_count))
      else count_loop lines (neighbor_count, established_count))"

text \<open>
  \<^verbatim>\<open>
  lines = bgp_result.stdout.strip().split('\n')
  neighbor_count = 0
  established_count = 0
  \<close>
  followed by the loop; the result is the pair stored under \<open>'neighbors'\<close> and
  \<open>'established'\<close>.
\<close>

definition count_sessions :: "string \<Rightarrow> int \<times> int" where
  "count_sessions stdout = count_loop (split_on newline (strip stdout)) (0, 0)"

text \<open>
  \<open>netsec_dashboard_v2.py\<close>, \<open>DataCollectionThread.collect_network_data\<close>: the
  statements are those of \<open>netsec_dashboard.py\<close>, but where that file writes the
  separator of \<open>split\<close> as a quote, the two characters of the line feed escape and a
  quote, this file has a quote, a line feed character and, on the next line, a quote
  (lines 540-541 and 559-560; the same inside the f-string of lines 191-192). A
  single-quoted literal cannot span lines, so Python refuses the file when it
  compiles it, with a \<open>SyntaxError\<close>: no function of this file ever runs, and for no
  text does its loop produce a pair of counts.
\<close>

datatype py_error = SyntaxError

definition count_sessions_v2 :: "string \<Rightarrow> py_error + int \<times> int" where
  "count_sessions_v2 stdout = Inl SyntaxError"

text \<open>
  \<open>netsec_dashboard_simple.py\<close>, \<open>MainWindow.update_data\<close>: the outer test has no
  \<open>line.strip()\<close> conjunct.
  \<^verbatim>\<open>
  neighbors = established = 0
  for line in lines:
      if '.' in line and len(line.split()) >= 8:
          parts = line.split()
          if len(parts) >= 10 and parts[0].count('.') == 3:
              neighbors += 1
              if "(Policy)" not in line:
                  established += 1
  \<close>
\<close>

fun count_loop_simple :: "string list \<Rightarrow> int \<times> int \<Rightarrow> int \<times> int" where
  "count_loop_simple [] (neighbors, established) = (neighbors, established)"
| "count_loop_simple (line # lines) (neighbors, established) =
     (if contains ''.'' line \<and> 8 \<le> length (split_ws line) then
        (let parts = split_ws line in
         if 10 \<le> length parts \<and> count_sub ''.'' (parts ! 0) = 3 then
           (if \<not> contains ''(Policy)'' line
            then count_loop_simple lines (neighbors + 1, established + 1)
            else count_loop_simple lines (neighbors + 1, established))
         else count_loop_simple lines (neighbors, established))
      else count_loop_simple lines (neighbors, established))"

definition count_sessions_simple :: "string \<Rightarrow> int \<times> int" where
  "count_sessions_simple stdout = count_loop_simple (split_on newline (strip stdout)) (0, 0)"

text \<open>
  The test the loops apply to a line, named for the statements below: at least ten
  whitespace-delimited fields, the first of them with exactly three dots.
\<close>

definition address_shaped :: "string \<Rightarrow> bool" where
  "address_shaped tok = (count_sub ''.'' tok = 3)"

definition neighbor_line :: "string \<Rightarrow> bool" where
  "neighbor_line line = (10 \<le> length (split_ws line) \<and> address_shaped (split_ws line ! 0))"

definition policy_hold :: "string \<Rightarrow> bool" where
  "policy_hold line = contains ''(Policy)'' line"

section \<open>Routes in the output of \<open>show ip bgp\<close>\<close>

text \<open>
  \<open>working_attack_simulator.py\<close>, \<open>WorkingBGPAttackSimulator.show_bgp_status\<close>:
  \<^verbatim>\<open>
  routes = [l for l in result.stdout.split('\n') if l.strip().startswith('*>')]
  ...
  for route in routes[:3]:
      parts = route.split()
      if len(parts) >= 2:
          network = parts[1]
  \<close>
\<close>

definition learned_routes :: "string \<Rightarrow> string list" where
  "learned_routes stdout = filter (\<lambda>l. startswith (strip l) ''*>'') (split_on newline stdout)"

definition route_network :: "string \<Rightarrow> string option" where
  "route_network route =
     (let parts = split_ws route in if 2 \<le> length parts then Some (parts ! 1) else None)"

section \<open>One poll cycle\<close>

text \<open>
  \<open>subprocess.run(..., capture_output=True, text=True, timeout=...)\<close> either returns
  a completed process with its return code and captured output, or raises (the
  timeout expired, the command could not be started).
\<close>

datatype run_result = Raised | Completed int string

text \<open>
  What a cycle reads from outside: the clock, the container listing, and per
  container the two \<open>vtysh\<close> queries.
\<close>

record environment =
  now :: string
  docker_ps :: run_result
  show_ip_bgp_summary :: "string \<Rightarrow> run_result"
  show_ip_bgp :: "string \<Rightarrow> run_result"

record container_data =
  status :: string
  routes :: int
  under_attack :: bool

record bgp_session_data =
  neighbors :: int
  established :: int

text \<open>
  An attack event: \<open>{'type': ..., 'target': ...}\<close> in \<open>netsec_dashboard_simple.py\<close>,
  with the further key \<open>'network'\<close> in \<open>netsec_dashboard.py\<close>.
\<close>

record attack_simple =
  attack_type :: string
  target :: string

record attack = attack_simple +
  network :: string

record data =
  timestamp :: string
  containers :: "string \<rightharpoonup> container_data"
  bgp_sessions :: "string \<rightharpoonup> bgp_session_data"
  attacks :: "attack list"

definition containers_list :: "string list" where
  "containers_list = [''as100'', ''as200'', ''as300'', ''as400'', ''as500'']"

text \<open>
  \<^verbatim>\<open>
  try:
      result = subprocess.run(['docker', 'ps', '--format', '{{.Names}}'], ...)
      running_containers = result.stdout.strip().split('\n') if result.stdout.strip() else []
  except:
      running_containers = []
  \<close>
\<close>

definition running_containers :: "environment \<Rightarrow> string list" where
  "running_containers env =
     (case docker_ps env of
        Completed returncode stdout \<Rightarrow>
          (if strip stdout \<noteq> [] then split_on newline (strip stdout) else [])
      | Raised \<Rightarrow> [])"

text \<open>
  The body of \<open>for container in containers\<close> in
  \<open>DataCollectionThread.collect_network_data\<close> (\<open>netsec_dashboard.py\<close>). The two
  queries sit in their own \<open>try\<close> blocks; inside them only \<open>subprocess.run\<close> can
  raise. A summary query that returns a non-zero code stores nothing.
\<close>

definition poll_container :: "environment \<Rightarrow> string list \<Rightarrow> string \<Rightarrow> data \<Rightarrow> data" where
  "poll_container env running container d =
     (let container_data =
            \<lparr>status = (if container \<in> set running then ''running'' else ''stopped''),
             routes = 0, under_attack = False\<rparr>
      in if container \<in> set running then
           (let d1 =
                  (case show_ip_bgp_summary env container of
                     Completed returncode stdout \<Rightarrow>
                       (if returncode = 0 then
                          (case count_sessions stdout of
                             (neighbor_count, established_count) \<Rightarrow>
                               d\<lparr>bgp_sessions := (bgp_sessions d)(container \<mapsto>
                                    \<lparr>neighbors = neighbor_count, established = established_count\<rparr>)\<rparr>)
                        else d)
                   | Raised \<Rightarrow>
                       d\<lparr>bgp_sessions := (bgp_sessions d)(container \<mapsto>
                            \<lparr>neighbors = 0, established = 0\<rparr>)\<rparr>);
                r =
                  (case show_ip_bgp env container of
                     Completed returncode route_output \<Rightarrow>
                       (if returncode = 0 then
                          (let cd = container_data\<lparr>routes := count_sub ''*>'' route_output\<rparr>
                           in if contains ''8.8.8.0/24'' route_output \<and> container \<noteq> ''as300'' then
                                (cd\<lparr>under_attack := True\<rparr>,
                                 d1\<lparr>attacks := attacks d1 @
                                    [\<lparr>attack_type = ''prefix_hijack'', target = container,
                                      network = ''8.8.8.0/24''\<rparr>]\<rparr>)
                              else (cd, d1))
                        else (container_data, d1))
                   | Raised \<Rightarrow> (container_data, d1))
            in (snd r)\<lparr>containers := (containers (snd r))(container \<mapsto> fst r)\<rparr>)
         else d\<lparr>containers := (containers d)(container \<mapsto> container_data)\<rparr>)"

fun poll_loop :: "environment \<Rightarrow> string list \<Rightarrow> string list \<Rightarrow> data \<Rightarrow> data" where
  "poll_loop env running [] d = d"
| "poll_loop env running (container # cs) d =
     poll_loop env running cs (poll_container env running container d)"

definition collect_network_data :: "environment \<Rightarrow> data" where
  "collect_network_data env =
     poll_loop env (running_containers env) containers_list
       \<lparr>timestamp = now env, containers = Map.empty, bgp_sessions = Map.empty, attacks = []\<rparr>"

text \<open>
  \<open>MainWindow.update_data\<close> (\<open>netsec_dashboard_simple.py\<close>) runs the same cycle
  on a timer, inside one \<open>try\<close>: the container listing has no handler of its own, so
  when it raises nothing is computed and no widget is updated. The three values it
  builds and hands to the widgets are \<open>container_data\<close>, \<open>bgp_data\<close> and \<open>attacks\<close>.
\<close>

type_synonym simple_state =
  "(string \<rightharpoonup> container_data) \<times> (string \<rightharpoonup> bgp_session_data) \<times> attack_simple list"

definition poll_container_simple ::
  "environment \<Rightarrow> string list \<Rightarrow> string \<Rightarrow> simple_state \<Rightarrow> simple_state" where
  "poll_container_simple env running container st =
     (case st of (container_data, bgp_data, attacks_list) \<Rightarrow>
      (let cd0 = \<lparr>status = (if container \<in> set running then ''running'' else ''stopped''),
                  routes = 0, under_attack = False\<rparr>;
           container_data0 = container_data(container \<mapsto> cd0)
       in if container \<in> set running then
            (let bgp_data1 =
                   (case show_ip_bgp_summary env container of
                      Completed returncode stdout \<Rightarrow>
                        (if returncode = 0 then
                           (case count_sessions_simple stdout of
                              (n, e) \<Rightarrow>
                                bgp_data(container \<mapsto>
                                  \<lparr>neighbors = n, established = e\<rparr>))
                         else bgp_data)
                    | Raised \<Rightarrow> bgp_data(container \<mapsto> \<lparr>neighbors = 0, established = 0\<rparr>))
             in (case show_ip_bgp env container of
                   Completed returncode route_output \<Rightarrow>
                     (if returncode = 0 then
                        (let cd1 = cd0\<lparr>routes := count_sub ''*>'' route_output\<rparr>
                         in if contains ''8.8.8.0/24'' route_output \<and> container \<noteq> ''as300'' then
                              (container_data(container \<mapsto> cd1\<lparr>under_attack := True\<rparr>),
                               bgp_data1,
                               attacks_list @ [\<lparr>attack_type = ''prefix_hijack'', target = container\<rparr>])
                            else (container_data(container \<mapsto> cd1), bgp_data1, attacks_list))
                      else (container_data0, bgp_data1, attacks_list))
                 | Raised \<Rightarrow> (container_data0, bgp_data1, attacks_list)))
          else (container_data0, bgp_data, attacks_list)))"

fun poll_loop_simple ::
  "environment \<Rightarrow> string list \<Rightarrow> string list \<Rightarrow> simple_state \<Rightarrow> simple_state" where
  "poll_loop_simple env running [] st = st"
| "poll_loop_simple env running (container # cs) st =
     poll_loop_simple env running cs (poll_container_simple env running container st)"

definition update_data :: "environment \<Rightarrow> simple_state option" where
  "update_data env =
     (case docker_ps env of
        Raised \<Rightarrow> None
      | Completed returncode stdout \<Rightarrow>
          Some (poll_loop_simple env
                  (if strip stdout \<noteq> [] then split_on newline (strip stdout) else [])
                  containers_list (Map.empty, Map.empty, [])))"

section \<open>Link colours in the topology widgets\<close>

text \<open>
  \<open>NetworkTopologyWidget\<close> (\<open>netsec_dashboard.py\<close>): the edges added in
  \<open>setup_graph\<close>, and in \<open>update_topology\<close>
  \<^verbatim>\<open>
  edge_color = 'green' if (bgp_data.get(src, {}).get('established', 0) > 0 and
                         bgp_data.get(dst, {}).get('established', 0) > 0) else 'red'
  \<close>
\<close>

definition edges :: "(string \<times> string) list" where
  "edges = [(''as100'', ''as200''), (''as200'', ''as300''), (''as200'', ''as400''),
            (''as300'', ''as500'')]"

definition get_established :: "(string \<rightharpoonup> bgp_session_data) \<Rightarrow> string \<Rightarrow> int" where
  "get_established bgp_data node = (case bgp_data node of None \<Rightarrow> 0 | Some s \<Rightarrow> established s)"

definition edge_color :: "(string \<rightharpoonup> bgp_session_data) \<Rightarrow> string \<Rightarrow> string \<Rightarrow> string" where
  "edge_color bgp_data src dst =
     (if 0 < get_established bgp_data src \<and> 0 < get_established bgp_data dst
      then ''green'' else ''red'')"

text \<open>
  \<open>TopologyWidget.update_topology\<close> (\<open>netsec_dashboard_simple.py\<close>):
  \<^verbatim>\<open>
  src_status = container_data.get(src, {}).get('status') == 'running'
  dst_status = container_data.get(dst, {}).get('status') == 'running'
  if src_status and dst_status: color = 'green' ... else: color = 'red'
  \<close>
\<close>

definition get_status :: "(string \<rightharpoonup> container_data) \<Rightarrow> string \<Rightarrow> string option" where
  "get_status container_data node = map_option status (container_data node)"

definition edge_color_simple ::
  "(string \<rightharpoonup> container_data) \<Rightarrow> string \<Rightarrow> string \<Rightarrow> string" where
  "edge_color_simple container_data src dst =
     (if get_status container_data src = Some ''running'' \<and>
         get_status container_data dst = Some ''running''
      then ''green'' else ''red'')"

section \<open>The collection thread\<close>

text \<open>
  \<open>DataCollectionThread.run\<close> of \<open>netsec_dashboard.py\<close>:
  \<^verbatim>\<open>
  while self.running:
      try:
          data = self.collect_network_data()
          self.data_updated.emit(data)
          time.sleep(2)
      except Exception as e:
          print(f"Data collection error: {e}")
          time.sleep(5)
  \<close>
  What a cycle does is a list of actions. The attempt to collect either returns the
  data or raises an \<open>Exception\<close> with a message.
\<close>

datatype 'a attempt = Returns 'a | Raises string

datatype action = Emit data | Sleep nat | Print string

fun run_cycle :: "data attempt \<Rightarrow> action list" where
  "run_cycle (Returns d) = [Emit d, Sleep 2]"
| "run_cycle (Raises e) = [Print (''Data collection error: '' @ e), Sleep 5]"

text \<open>
  The loop. \<open>running i\<close> is the value of \<open>self.running\<close> read at the top of iteration
  \<open>i\<close> (\<open>stop()\<close>, called from the window's thread, sets it to \<open>False\<close>), and
  \<open>attempts i\<close> is what collecting does in that iteration. The loop need not end, so
  it takes fuel: \<open>None\<close> says that the loop is still running when the fuel is used up,
  \<open>Some\<close> gives the actions of a loop that has left the \<open>while\<close>.
\<close>

fun run :: "nat \<Rightarrow> (nat \<Rightarrow> bool) \<Rightarrow> (nat \<Rightarrow> data attempt) \<Rightarrow> nat \<Rightarrow> action list option" where
  "run 0 running attempts i = None"
| "run (Suc fuel) running attempts i =
     (if running i
      then (case run fuel running attempts (Suc i) of
              None \<Rightarrow> None
            | Some acts \<Rightarrow> Some (run_cycle (attempts i) @ acts))
      else Some [])"

section \<open>Notions used in the statements\<close>

text \<open>The text a query of a container gave, when it completed with return code 0.\<close>

definition summary_output :: "environment \<Rightarrow> string \<Rightarrow> string option" where
  "summary_output env c =
     (case show_ip_bgp_summary env c of
        Completed returncode stdout \<Rightarrow> (if returncode = 0 then Some stdout else None)
      | Raised \<Rightarrow> None)"

definition route_output :: "environment \<Rightarrow> string \<Rightarrow> string option" where
  "route_output env c =
     (case show_ip_bgp env c of
        Completed returncode stdout \<Rightarrow> (if returncode = 0 then Some stdout else None)
      | Raised \<Rightarrow> None)"

text \<open>The prefix text occurs somewhere in the route table a listed container gave.\<close>

definition prefix_seen :: "environment \<Rightarrow> string list \<Rightarrow> string \<Rightarrow> bool" where
  "prefix_seen env running c =
     (c \<in> set running \<and>
      (case route_output env c of None \<Rightarrow> False | Some out \<Rightarrow> contains ''8.8.8.0/24'' out))"

definition hijack_event :: "string \<Rightarrow> attack" where
  "hijack_event c = \<lparr>attack_type = ''prefix_hijack'', target = c, network = ''8.8.8.0/24''\<rparr>"

definition hijack_event_simple :: "string \<Rightarrow> attack_simple" where
  "hijack_event_simple c = \<lparr>attack_type = ''prefix_hijack'', target = c\<rparr>"

text \<open>The events one iteration of the loop appends.\<close>

definition new_attacks :: "environment \<Rightarrow> string list \<Rightarrow> string \<Rightarrow> attack list" where
  "new_attacks env running c =
     (if prefix_seen env running c \<and> c \<noteq> ''as300'' then [hijack_event c] else [])"

text \<open>The entry one iteration of the loop stores under \<open>'containers'\<close>.\<close>

definition container_entry :: "environment \<Rightarrow> string list \<Rightarrow> string \<Rightarrow> container_data" where
  "container_entry env running c =
     \<lparr>status = (if c \<in> set running then ''running'' else ''stopped''),
      routes = (if c \<in> set running
                then (case route_output env c of None \<Rightarrow> 0 | Some out \<Rightarrow> count_sub ''*>'' out)
                else 0),
      under_attack = (prefix_seen env running c \<and> c \<noteq> ''as300'')\<rparr>"

text \<open>What one iteration of the loop does to the entry under \<open>'bgp_sessions'\<close>.\<close>

definition session_entry ::
  "environment \<Rightarrow> string list \<Rightarrow> string \<Rightarrow> bgp_session_data option \<Rightarrow> bgp_session_data option" where
  "session_entry env running c old =
     (if c \<in> set running then
        (case show_ip_bgp_summary env c of
           Raised \<Rightarrow> Some \<lparr>neighbors = 0, established = 0\<rparr>
         | Completed returncode stdout \<Rightarrow>
             (if returncode = 0
              then Some \<lparr>neighbors = fst (count_sessions stdout),
                         established = snd (count_sessions stdout)\<rparr>
              else old))
      else old)"

text \<open>
  A listed container whose summary has a line that the counting loop counts as
  established.
\<close>

definition has_established :: "environment \<Rightarrow> string \<Rightarrow> bool" where
  "has_established env c =
     (c \<in> set (running_containers env) \<and>
      (case summary_output env c of
         None \<Rightarrow> False
       | Some out \<Rightarrow>
           list_ex (\<lambda>l. neighbor_line l \<and> \<not> policy_hold l) (split_on newline (strip out))))"

text \<open>
  The reading of the specification's session rule that the loops are compared with:
  a line is a session record when its first whitespace-delimited field is
  address-shaped, whatever the number of fields.
\<close>

definition first_field_address_shaped :: "string \<Rightarrow> bool" where
  "first_field_address_shaped line =
     (case split_ws line of [] \<Rightarrow> False | tok # rest \<Rightarrow> address_shaped tok)"

text \<open>
  The peer addresses of the sessions a summary reports as established: the first
  field of the lines that the loop counts so.
\<close>

definition established_peers :: "string \<Rightarrow> string list" where
  "established_peers stdout =
     map (\<lambda>l. split_ws l ! 0)
       (filter (\<lambda>l. neighbor_line l \<and> \<not> policy_hold l) (split_on newline (strip stdout)))"

text \<open>The addresses of the nodes: \<open>BGPAttackSimulator.as_ips\<close> (\<open>bgp_attack_simulator.py\<close>).\<close>

definition as_ips :: "string \<Rightarrow> string option" where
  "as_ips = map_of [(''as100'', ''172.20.0.10''), (''as200'', ''172.20.0.20''),
                    (''as300'', ''172.20.0.30''), (''as400'', ''172.20.0.40''),
                    (''as500'', ''172.20.0.50'')]"

text \<open>
  The link rule of the specification: each endpoint reports an established session
  whose peer is the other endpoint's address.
\<close>

definition peered_by_address :: "environment \<Rightarrow> string \<Rightarrow> string \<Rightarrow> bool" where
  "peered_by_address env src dst =
     (case (summary_output env src, summary_output env dst, as_ips src, as_ips dst) of
        (Some out_src, Some out_dst, Some ip_src, Some ip_dst) \<Rightarrow>
          ip_dst \<in> set (established_peers out_src) \<and> ip_src \<in> set (established_peers out_dst)
      | _ \<Rightarrow> False)"

section \<open>Concrete cycles\<close>

text \<open>
  Cycles used as examples: all five containers are listed by \<open>docker ps\<close>, and the
  two queries answer as given.
\<close>

definition cycle_env ::
  "(string \<Rightarrow> run_result) \<Rightarrow> (string \<Rightarrow> run_result) \<Rightarrow> environment" where
  "cycle_env summary routes_of =
     \<lparr>now = ''2025-01-01T00:00:00'',
      docker_ps = Completed 0 ''as100\<newline>as200\<newline>as300\<newline>as400\<newline>as500\<newline>'',
      show_ip_bgp_summary = summary,
      show_ip_bgp = routes_of\<rparr>"

text \<open>A summary with one session line for the given peer, of ten fields.\<close>

definition summary_with_peer :: "string \<Rightarrow> run_result" where
  "summary_with_peer peer = Completed 0 (peer @ '' 4 65000 12 13 0 0 0 00:05:10 2'')"

text \<open>\<open>as500\<close> and \<open>as300\<close> both hold \<open>8.8.8.0/24\<close> as a best path.\<close>

definition env_hijack :: environment where
  "env_hijack =
     cycle_env (\<lambda>c. summary_with_peer ''172.20.0.20'')
       (\<lambda>c. if c = ''as500'' \<or> c = ''as300''
            then Completed 0 ''*> 8.8.8.0/24 0.0.0.0 0 32768 i''
            else Completed 0 ''*> 10.100.0.0/24 0.0.0.0 0 32768 i'')"

text \<open>\<open>as500\<close> holds \<open>8.8.8.0/24\<close> as a valid route that is not the best path.\<close>

definition env_not_best :: environment where
  "env_not_best =
     cycle_env (\<lambda>c. summary_with_peer ''172.20.0.20'')
       (\<lambda>c. if c = ''as500''
            then Completed 0 ''*  8.8.8.0/24 172.20.0.30 0 65300 i''
            else Completed 0 ''*> 10.100.0.0/24 0.0.0.0 0 32768 i'')"




text \<open>
  \<open>as100\<close> has its one session with \<open>172.20.0.40\<close> and \<open>as200\<close> its one session
  with \<open>172.20.0.30\<close>: none with each other.
\<close>

definition env_peers :: environment where
  "env_peers =
     cycle_env (\<lambda>c. if c = ''as100'' then summary_with_peer ''172.20.0.40''
                     else summary_with_peer ''172.20.0.30'')
       (\<lambda>c. Completed 0 ''*> 10.100.0.0/24 0.0.0.0 0 32768 i'')"

text \<open>The route table of every container is one line that holds the marker twice.\<close>

definition env_two_markers :: environment where
  "env_two_markers =
     cycle_env (\<lambda>c. summary_with_peer ''172.20.0.20'')
       (\<lambda>c. Completed 0 ''*> 10.100.0.0/24 0.0.0.0 *> i'')"

text \<open>Every query answers, and no route table mentions \<open>8.8.8.0/24\<close>.\<close>

definition env_quiet :: environment where
  "env_quiet =
     cycle_env (\<lambda>c. summary_with_peer ''172.20.0.20'')
       (\<lambda>c. Completed 0 ''*> 10.100.0.0/24 0.0.0.0 0 32768 i'')"

text \<open>
  A run of the thread that is stopped before its fourth iteration and whose second
  iteration raises.
\<close>

definition stop_at_three :: "nat \<Rightarrow> bool" where
  "stop_at_three i = (i < 3)"

definition second_raises :: "nat \<Rightarrow> data attempt" where
  "second_raises i =
     (if i = 1 then Raises ''boom'' else Returns (collect_network_data env_quiet))"

section \<open>Facts about the string functions\<close>

lemma split_ws_aux_nonempty:
  "split_ws_aux cur s \<noteq> [] \<longleftrightarrow> cur \<noteq> [] \<or> (\<exists>c\<in>set s. \<not> is_space c)"
  by (induction s arbitrary: cur) auto

lemma dropWhile_all_space:
  "(\<forall>x\<in>set (dropWhile is_space s). is_space x) \<longleftrightarrow> dropWhile is_space s = []"
proof
  assume a: "\<forall>x\<in>set (dropWhile is_space s). is_space x"
  show "dropWhile is_space s = []"
  proof (rule ccontr)
    assume ne: "dropWhile is_space s \<noteq> []"
    then have "\<not> is_space (hd (dropWhile is_space s))" by (rule hd_dropWhile)
    moreover from ne have "hd (dropWhile is_space s) \<in> set (dropWhile is_space s)" by simp
    ultimately show False using a by blast
  qed
next
  assume "dropWhile is_space s = []"
  then show "\<forall>x\<in>set (dropWhile is_space s). is_space x"
    by (simp del: dropWhile_eq_Nil_conv)
qed

lemma strip_empty_iff: "strip s = [] \<longleftrightarrow> (\<forall>c\<in>set s. is_space c)"
  by (simp add: strip_def dropWhile_all_space)

lemma split_ws_strip: "split_ws line \<noteq> [] \<Longrightarrow> strip line \<noteq> []"
  by (simp add: split_ws_def split_ws_aux_nonempty strip_empty_iff)

lemma split_ws_aux_set:
  "w \<in> set (split_ws_aux cur s) \<Longrightarrow> set w \<subseteq> set cur \<union> set s"
  by (induction s arbitrary: cur) (fastforce split: if_splits)+

lemma startswith_single: "startswith s [c] \<longleftrightarrow> (s \<noteq> [] \<and> hd s = c)"
  by (cases s) auto

lemma contains_single: "contains [c] s \<longleftrightarrow> c \<in> set s"
  by (induction s) (auto simp: startswith_single)

lemma count_sub_single_pos: "0 < count_sub [c] s \<Longrightarrow> c \<in> set s"
  by (induction s) (auto split: if_splits simp: startswith_single)

lemma count_sub_nonneg: "0 \<le> count_sub sub s"
  by (induction sub s rule: count_sub.induct) auto

section \<open>The counting loops\<close>

lemma neighbor_line_dot:
  assumes "neighbor_line line"
  shows "contains ''.'' line"
proof -
  from assms have len: "10 \<le> length (split_ws line)"
    and cnt: "count_sub ''.'' (split_ws line ! 0) = 3"
    by (simp_all add: neighbor_line_def address_shaped_def)
  from len have "split_ws line ! 0 \<in> set (split_ws line)"
    by (cases "split_ws line") simp_all
  then have "set (split_ws line ! 0) \<subseteq> set line"
    using split_ws_aux_set [of "split_ws line ! 0" "[]" line] by (simp add: split_ws_def)
  moreover from cnt have "CHR ''.'' \<in> set (split_ws line ! 0)"
    using count_sub_single_pos [of "CHR ''.''" "split_ws line ! 0"] by simp
  ultimately show ?thesis by (auto simp: contains_single)
qed

lemma neighbor_line_strip: "neighbor_line line \<Longrightarrow> strip line \<noteq> []"
  by (rule split_ws_strip) (auto simp: neighbor_line_def)

lemma neighbor_line_tests:
  assumes "neighbor_line line"
  shows "strip line \<noteq> []" "contains ''.'' line" "8 \<le> length (split_ws line)"
    "10 \<le> length (split_ws line)" "count_sub ''.'' (split_ws line ! 0) = 3"
  using assms neighbor_line_dot neighbor_line_strip
  by (auto simp: neighbor_line_def address_shaped_def)

lemma not_neighbor_line_tests:
  "\<not> neighbor_line line \<Longrightarrow>
   \<not> (10 \<le> length (split_ws line) \<and> count_sub ''.'' (split_ws line ! 0) = 3)"
  by (simp add: neighbor_line_def address_shaped_def)

lemma count_loop_filter:
  "count_loop ls (n, e) =
     (n + int (length (filter neighbor_line ls)),
      e + int (length (filter (\<lambda>l. neighbor_line l \<and> \<not> policy_hold l) ls)))"
proof (induction ls arbitrary: n e)
  case Nil
  show ?case by simp
next
  case (Cons line ls)
  show ?case
  proof (cases "neighbor_line line")
    case True
    from neighbor_line_tests [OF True] True show ?thesis
      by (simp add: Cons.IH policy_hold_def Let_def)
  next
    case False
    from not_neighbor_line_tests [OF False] False show ?thesis
      by (auto simp: Cons.IH Let_def)
  qed
qed

lemma count_loop_simple_filter:
  "count_loop_simple ls (n, e) =
     (n + int (length (filter neighbor_line ls)),
      e + int (length (filter (\<lambda>l. neighbor_line l \<and> \<not> policy_hold l) ls)))"
proof (induction ls arbitrary: n e)
  case Nil
  show ?case by simp
next
  case (Cons line ls)
  show ?case
  proof (cases "neighbor_line line")
    case True
    from neighbor_line_tests [OF True] True show ?thesis
      by (simp add: Cons.IH policy_hold_def Let_def)
  next
    case False
    from not_neighbor_line_tests [OF False] False show ?thesis
      by (auto simp: Cons.IH Let_def)
  qed
qed

lemma filter_split_length:
  "length (filter P xs) =
     length (filter (\<lambda>x. P x \<and> Q x) xs) + length (filter (\<lambda>x. P x \<and> \<not> Q x) xs)"
  by (induction xs) auto

lemma count_sessions_filter:
  "count_sessions stdout =
     (int (length (filter neighbor_line (split_on newline (strip stdout)))),
      int (length (filter (\<lambda>l. neighbor_line l \<and> \<not> policy_hold l)
                     (split_on newline (strip stdout)))))"
  by (simp add: count_sessions_def count_loop_filter)

lemma count_sessions_simple_filter:
  "count_sessions_simple stdout =
     (int (length (filter neighbor_line (split_on newline (strip stdout)))),
      int (length (filter (\<lambda>l. neighbor_line l \<and> \<not> policy_hold l)
                     (split_on newline (strip stdout)))))"
  by (simp add: count_sessions_simple_def count_loop_simple_filter)

text \<open>
  C1 (as amended). The loops of \<open>netsec_dashboard.py\<close> and
  \<open>netsec_dashboard_simple.py\<close> count as a neighbor exactly the lines of the stripped
  text that have at least ten whitespace-delimited fields and whose first field has
  exactly three dots, and as established those among them without \<open>(Policy)\<close>: with
  \<open>N\<close> such lines, \<open>M\<close> of them with the marker, the counts are \<open>N\<close> and \<open>N - M\<close>.
\<close>

theorem session_counts:
  "count_sessions stdout =
     (int (length (filter neighbor_line (split_on newline (strip stdout)))),
      int (length (filter neighbor_line (split_on newline (strip stdout)))) -
      int (length (filter (\<lambda>l. neighbor_line l \<and> policy_hold l)
                     (split_on newline (strip stdout)))))
   \<and> count_sessions_simple stdout = count_sessions stdout
   \<and> neighbor_line line =
       (10 \<le> length (split_ws line) \<and> count_sub ''.'' (split_ws line ! 0) = 3)
   \<and> policy_hold line = contains ''(Policy)'' line"
  using filter_split_length
    [of neighbor_line "split_on newline (strip stdout)" policy_hold]
  by (simp add: count_sessions_filter count_sessions_simple_filter
      neighbor_line_def address_shaped_def policy_hold_def)

text \<open>
  C1 (as stated) fails: the one line \<open>172.20.0.20 4 65200\<close> has an address-shaped
  first field, and the loop counts no neighbor, since the line has three fields.
\<close>

theorem session_counts_counterexample:
  "filter first_field_address_shaped (split_on newline (strip ''172.20.0.20 4 65200''))
     = [''172.20.0.20 4 65200'']
   \<and> count_sessions ''172.20.0.20 4 65200'' = (0, 0)"
  by code_simp

lemma valid_counting_loops_agree:
  "count_loop_simple ls (n, e) = count_loop ls (n, e)
   \<and> count_sessions_simple stdout = count_sessions stdout"
  by (simp add: count_loop_filter count_loop_simple_filter
      count_sessions_filter count_sessions_simple_filter)

text \<open>
  C8 does not hold of the code. The loops of \<open>netsec_dashboard.py\<close> and
  \<open>netsec_dashboard_simple.py\<close> compute the same pair of counts from every text
  (\<open>valid_counting_loops_agree\<close>), but \<open>netsec_dashboard_v2.py\<close> is refused with
  a \<open>SyntaxError\<close> and computes none: on the one session line below the two others
  count one neighbor, established, and the third file gives no pair.
\<close>

theorem counting_loops_v2_fails:
  "count_sessions ''172.20.0.20 4 65200 12 13 0 0 0 00:05:10 2'' = (1, 1)
   \<and> count_sessions_simple ''172.20.0.20 4 65200 12 13 0 0 0 00:05:10 2'' = (1, 1)
   \<and> count_sessions_v2 ''172.20.0.20 4 65200 12 13 0 0 0 00:05:10 2'' = Inl SyntaxError"
  by code_simp

text \<open>
  C9. For every text the established count lies between zero and the neighbor
  count.
\<close>

theorem established_bounds:
  "0 \<le> snd (count_sessions stdout) \<and> snd (count_sessions stdout) \<le> fst (count_sessions stdout)"
  using filter_split_length
    [of neighbor_line "split_on newline (strip stdout)" "\<lambda>l. \<not> policy_hold l"]
  by (simp add: count_sessions_filter)

section \<open>One iteration and the whole loop of a poll cycle\<close>

lemma poll_container_attacks:
  "attacks (poll_container env running c d) = attacks d @ new_attacks env running c"
  by (simp add: poll_container_def new_attacks_def prefix_seen_def route_output_def
      hijack_event_def Let_def split: run_result.splits prod.splits)

lemma poll_container_containers:
  "containers (poll_container env running c d) = (containers d)(c \<mapsto> container_entry env running c)"
  by (auto simp: poll_container_def container_entry_def prefix_seen_def route_output_def
      Let_def split: run_result.splits prod.splits)

lemma poll_container_sessions:
  "bgp_sessions (poll_container env running c d) =
     (bgp_sessions d)(c := session_entry env running c (bgp_sessions d c))"
  by (auto simp: poll_container_def session_entry_def Let_def
      split: run_result.splits prod.splits)

lemma poll_container_timestamp:
  "timestamp (poll_container env running c d) = timestamp d"
  by (simp add: poll_container_def Let_def split: run_result.splits prod.splits)

lemma poll_loop_attacks:
  "attacks (poll_loop env running cs d) = attacks d @ concat (map (new_attacks env running) cs)"
  by (induction cs arbitrary: d) (simp_all add: poll_container_attacks)

lemma poll_loop_containers:
  "containers (poll_loop env running cs d) x =
     (if x \<in> set cs then Some (container_entry env running x) else containers d x)"
  by (induction cs arbitrary: d) (simp_all add: poll_container_containers)

lemma poll_loop_sessions:
  "distinct cs \<Longrightarrow>
   bgp_sessions (poll_loop env running cs d) x =
     (if x \<in> set cs then session_entry env running x (bgp_sessions d x) else bgp_sessions d x)"
  by (induction cs arbitrary: d) (auto simp: poll_container_sessions)

lemma distinct_containers_list: "distinct containers_list"
  by (simp add: containers_list_def)

lemma collect_attacks:
  "attacks (collect_network_data env) =
     concat (map (new_attacks env (running_containers env)) containers_list)"
  by (simp add: collect_network_data_def poll_loop_attacks)

lemma collect_containers:
  "containers (collect_network_data env) x =
     (if x \<in> set containers_list then Some (container_entry env (running_containers env) x)
      else None)"
  by (simp add: collect_network_data_def poll_loop_containers)

lemma collect_sessions:
  "bgp_sessions (collect_network_data env) x =
     (if x \<in> set containers_list then session_entry env (running_containers env) x None
      else None)"
  by (simp add: collect_network_data_def poll_loop_sessions distinct_containers_list)

lemma target_new_attacks: "a \<in> set (new_attacks env running c) \<Longrightarrow> target a = c"
  by (auto simp: new_attacks_def hijack_event_def split: if_splits)

lemma filter_target_new_attacks:
  "filter (\<lambda>a. target a = x) (new_attacks env running c) =
     (if c = x then new_attacks env running c else [])"
  by (auto simp: new_attacks_def hijack_event_def)

lemma filter_target_concat:
  "distinct cs \<Longrightarrow>
   filter (\<lambda>a. target a = x) (concat (map (new_attacks env running) cs)) =
     (if x \<in> set cs then new_attacks env running x else [])"
  by (induction cs) (auto simp: filter_target_new_attacks)

lemma collect_attacks_of:
  "filter (\<lambda>a. target a = x) (attacks (collect_network_data env)) =
     (if x \<in> set containers_list then new_attacks env (running_containers env) x else [])"
  by (simp add: collect_attacks filter_target_concat distinct_containers_list)

lemma map_target_concat:
  "map target (concat (map (new_attacks env running) cs)) =
     filter (\<lambda>c. prefix_seen env running c \<and> c \<noteq> ''as300'') cs"
  by (induction cs) (auto simp: new_attacks_def hijack_event_def)

lemma set_collect_attacks:
  "set (attacks (collect_network_data env)) =
     hijack_event ` {c \<in> set containers_list. prefix_seen env (running_containers env) c \<and> c \<noteq> ''as300''}"
  by (auto simp: collect_attacks new_attacks_def split: if_splits)

lemma poll_container_simple_eq:
  "poll_container_simple env running c (cdm, bgp, atk) =
     (cdm(c \<mapsto> container_entry env running c),
      bgp(c := session_entry env running c (bgp c)),
      atk @ (if prefix_seen env running c \<and> c \<noteq> ''as300'' then [hijack_event_simple c] else []))"
  by (auto simp: poll_container_simple_def container_entry_def session_entry_def
      prefix_seen_def route_output_def hijack_event_simple_def Let_def
      count_sessions_simple_filter count_sessions_filter
      split: run_result.splits)

lemma poll_loop_simple_eq:
  "distinct cs \<Longrightarrow>
   poll_loop_simple env running cs (cdm, bgp, atk) =
     ((\<lambda>x. if x \<in> set cs then Some (container_entry env running x) else cdm x),
      (\<lambda>x. if x \<in> set cs then session_entry env running x (bgp x) else bgp x),
      atk @ concat (map (\<lambda>c. if prefix_seen env running c \<and> c \<noteq> ''as300''
                               then [hijack_event_simple c] else []) cs))"
proof (induction cs arbitrary: cdm bgp atk)
  case Nil
  show ?case by simp
next
  case (Cons c cs)
  then have d: "distinct cs" and n: "c \<notin> set cs" by simp_all
  show ?case
    unfolding poll_loop_simple.simps poll_container_simple_eq Cons.IH [OF d]
    using n by (auto simp: fun_eq_iff)
qed

lemma no_origin_simple:
  "filter (\<lambda>a. target a = ''as300'')
     (concat (map (\<lambda>c. if prefix_seen env running c \<and> c \<noteq> ''as300''
                         then [hijack_event_simple c] else []) cs)) = []"
  by (induction cs) (auto simp: hijack_event_simple_def)

lemma update_data_raised: "docker_ps env = Raised \<Longrightarrow> update_data env = None"
  by (simp add: update_data_def)

lemma update_data_completed:
  "docker_ps env = Completed returncode stdout \<Longrightarrow>
   update_data env =
     Some ((\<lambda>x. if x \<in> set containers_list
                then Some (container_entry env (running_containers env) x) else None),
           (\<lambda>x. if x \<in> set containers_list
                then session_entry env (running_containers env) x None else None),
           concat (map (\<lambda>c. if prefix_seen env (running_containers env) c \<and> c \<noteq> ''as300''
                               then [hijack_event_simple c] else []) containers_list))"
proof -
  assume c: "docker_ps env = Completed returncode stdout"
  then have r: "running_containers env =
      (if strip stdout \<noteq> [] then split_on newline (strip stdout) else [])"
    by (simp add: running_containers_def)
  from c have "update_data env =
      Some (poll_loop_simple env (running_containers env) containers_list
              (Map.empty, Map.empty, []))"
    by (simp add: update_data_def r)
  then show ?thesis
    by (simp add: poll_loop_simple_eq distinct_containers_list)
qed

text \<open>
  C3. In every cycle no event names \<open>as300\<close> and the \<open>under_attack\<close> entry of
  \<open>as300\<close> is false, whatever the queries of \<open>as300\<close> return, in
  \<open>netsec_dashboard.py\<close> and (whenever the cycle computes anything) in
  \<open>netsec_dashboard_simple.py\<close>.
\<close>

theorem origin_never_flagged:
  "filter (\<lambda>a. target a = ''as300'') (attacks (collect_network_data env)) = []
   \<and> map_option under_attack (containers (collect_network_data env) ''as300'') = Some False
   \<and> (case update_data env of
        None \<Rightarrow> True
      | Some (container_data, bgp_data, attacks_list) \<Rightarrow>
          filter (\<lambda>a. target a = ''as300'') attacks_list = []
          \<and> map_option under_attack (container_data ''as300'') = Some False)"
proof -
  have 1: "filter (\<lambda>a. target a = ''as300'') (attacks (collect_network_data env)) = []"
    by (simp add: collect_attacks_of new_attacks_def)
  have 2: "map_option under_attack (containers (collect_network_data env) ''as300'') = Some False"
    by (simp add: collect_containers containers_list_def container_entry_def)
  have 3: "case update_data env of
        None \<Rightarrow> True
      | Some (container_data, bgp_data, attacks_list) \<Rightarrow>
          filter (\<lambda>a. target a = ''as300'') attacks_list = []
          \<and> map_option under_attack (container_data ''as300'') = Some False"
  proof (cases "docker_ps env")
    case Raised
    then show ?thesis by (simp add: update_data_raised)
  next
    case (Completed returncode stdout)
    have "''as300'' \<in> set containers_list" by (simp add: containers_list_def)
    then show ?thesis
      by (simp add: update_data_completed [OF Completed] no_origin_simple container_entry_def)
  qed
  from 1 2 3 show ?thesis by blast
qed

theorem origin_never_flagged_witness:
  "route_output env_hijack ''as300'' = Some ''*> 8.8.8.0/24 0.0.0.0 0 32768 i''
   \<and> filter (\<lambda>a. target a = ''as300'') (attacks (collect_network_data env_hijack)) = []
   \<and> map_option under_attack (containers (collect_network_data env_hijack) ''as300'') = Some False
   \<and> (\<exists>container_data bgp_data attacks_list.
         update_data env_hijack = Some (container_data, bgp_data, attacks_list)
         \<and> filter (\<lambda>a. target a = ''as300'') attacks_list = []
         \<and> map_option under_attack (container_data ''as300'') = Some False)"
proof -
  have r: "route_output env_hijack ''as300'' = Some ''*> 8.8.8.0/24 0.0.0.0 0 32768 i''"
    by code_simp
  have d: "docker_ps env_hijack =
      Completed 0 ''as100\<newline>as200\<newline>as300\<newline>as400\<newline>as500\<newline>''"
    by (simp add: env_hijack_def cycle_env_def)
  from update_data_completed [OF d] obtain cd bgp atk
    where u: "update_data env_hijack = Some (cd, bgp, atk)" by blast
  from origin_never_flagged [of env_hijack] u r show ?thesis by simp
qed

text \<open>
  C10. In the data of every cycle of \<open>netsec_dashboard.py\<close>, the \<open>under_attack\<close>
  entry of a container is true exactly when the attack list holds a
  \<open>prefix_hijack\<close> event with that container as target, and no two events have the
  same target.
\<close>

theorem data_consistent:
  "(containers (collect_network_data env) c = Some cd \<longrightarrow>
      under_attack cd =
        (\<exists>a\<in>set (attacks (collect_network_data env)).
           attack_type a = ''prefix_hijack'' \<and> target a = c))
   \<and> distinct (map target (attacks (collect_network_data env)))"
proof -
  have "distinct (map target (attacks (collect_network_data env)))"
    by (simp add: collect_attacks map_target_concat distinct_containers_list)
  moreover have "under_attack cd =
        (\<exists>a\<in>set (attacks (collect_network_data env)).
           attack_type a = ''prefix_hijack'' \<and> target a = c)"
    if h: "containers (collect_network_data env) c = Some cd"
  proof -
    from h have c: "c \<in> set containers_list"
      and cd: "cd = container_entry env (running_containers env) c"
      by (auto simp: collect_containers split: if_splits)
    show ?thesis
      using c by (auto simp: cd set_collect_attacks container_entry_def hijack_event_def)
  qed
  ultimately show ?thesis by blast
qed

theorem data_consistent_witness:
  "containers (collect_network_data env_hijack) ''as500'' =
     Some \<lparr>status = ''running'', routes = 1, under_attack = True\<rparr>
   \<and> (\<exists>a\<in>set (attacks (collect_network_data env_hijack)).
         attack_type a = ''prefix_hijack'' \<and> target a = ''as500'')
   \<and> distinct (map target (attacks (collect_network_data env_hijack)))"
proof -
  have h: "containers (collect_network_data env_hijack) ''as500'' =
     Some \<lparr>status = ''running'', routes = 1, under_attack = True\<rparr>"
    by code_simp
  from data_consistent [of env_hijack "''as500''"
      "\<lparr>status = ''running'', routes = 1, under_attack = True\<rparr>"] h
  show ?thesis by simp
qed

section \<open>Substrings\<close>

lemma startswith_append: "startswith s p \<longleftrightarrow> (\<exists>post. s = p @ post)"
  by (induction s p rule: startswith.induct) auto

lemma contains_append: "contains sub s \<longleftrightarrow> (\<exists>pre post. s = pre @ sub @ post)"
proof (induction s)
  case Nil
  show ?case by simp
next
  case (Cons c cs)
  show ?case
  proof
    assume "contains sub (c # cs)"
    then consider "startswith (c # cs) sub" | "contains sub cs" by auto
    then show "\<exists>pre post. c # cs = pre @ sub @ post"
    proof cases
      case 1
      then obtain post where "c # cs = sub @ post" by (auto simp: startswith_append)
      then have "c # cs = [] @ sub @ post" by simp
      then show ?thesis by blast
    next
      case 2
      then obtain pre post where "cs = pre @ sub @ post" using Cons.IH by blast
      then have "c # cs = (c # pre) @ sub @ post" by simp
      then show ?thesis by blast
    qed
  next
    assume "\<exists>pre post. c # cs = pre @ sub @ post"
    then obtain pre post where e: "c # cs = pre @ sub @ post" by blast
    show "contains sub (c # cs)"
    proof (cases pre)
      case Nil
      with e have "startswith (c # cs) sub" unfolding startswith_append by auto
      then show ?thesis by simp
    next
      case (Cons a pre')
      with e have "cs = pre' @ sub @ post" by simp
      then have "contains sub cs" using Cons.IH by blast
      then show ?thesis by simp
    qed
  qed
qed

lemma contains_trans: "contains a b \<Longrightarrow> contains b c \<Longrightarrow> contains a c"
proof -
  assume "contains a b" "contains b c"
  then obtain p1 q1 p2 q2 where "b = p1 @ a @ q1" "c = p2 @ b @ q2"
    unfolding contains_append by blast
  then have "c = (p2 @ p1) @ a @ (q1 @ q2)" by simp
  then show ?thesis unfolding contains_append by blast
qed

lemma split_ws_aux_part:
  "w \<in> set (split_ws_aux cur s) \<Longrightarrow> \<exists>pre post. rev cur @ s = pre @ w @ post"
proof (induction s arbitrary: cur)
  case Nil
  then have "w = rev cur" by (auto split: if_splits)
  then have "rev cur @ [] = [] @ w @ []" by simp
  then show ?case by blast
next
  case (Cons c cs)
  show ?case
  proof (cases "is_space c")
    case False
    with Cons.prems have "w \<in> set (split_ws_aux (c # cur) cs)" by simp
    from Cons.IH [OF this] show ?thesis by simp
  next
    case True
    with Cons.prems consider "cur \<noteq> []" "w = rev cur" | "w \<in> set (split_ws_aux [] cs)"
      by (auto split: if_splits)
    then show ?thesis
    proof cases
      case 1
      then have "rev cur @ c # cs = [] @ w @ (c # cs)" by simp
      then show ?thesis by blast
    next
      case 2
      from Cons.IH [OF this] obtain pre post where "cs = pre @ w @ post" by auto
      then have "rev cur @ c # cs = (rev cur @ c # pre) @ w @ post" by simp
      then show ?thesis by blast
    qed
  qed
qed

lemma split_ws_part: "w \<in> set (split_ws s) \<Longrightarrow> contains w s"
  using split_ws_aux_part [of w "[]" s] by (simp add: split_ws_def contains_append)

lemma split_on_nonempty: "split_on sep s \<noteq> []"
  by (induction s) (auto split: list.splits)

lemma split_on_head: "\<exists>post. s = hd (split_on sep s) @ post"
  by (induction s) (auto split: list.splits)

lemma split_on_part:
  "l \<in> set (split_on sep s) \<Longrightarrow> \<exists>pre post. s = pre @ l @ post"
proof (induction s)
  case Nil
  then show ?case by simp
next
  case (Cons c cs)
  show ?case
  proof (cases "c = sep")
    case True
    with Cons.prems consider "l = []" | "l \<in> set (split_on sep cs)" by auto
    then show ?thesis
    proof cases
      case 1
      then have "c # cs = [] @ l @ (c # cs)" by simp
      then show ?thesis by blast
    next
      case 2
      from Cons.IH [OF this] obtain pre post where "cs = pre @ l @ post" by blast
      then have "c # cs = (c # pre) @ l @ post" by simp
      then show ?thesis by blast
    qed
  next
    case False
    obtain w ws where ws: "split_on sep cs = w # ws"
      using split_on_nonempty [of sep cs] by (cases "split_on sep cs") auto
    with False Cons.prems consider "l = c # w" | "l \<in> set ws" by auto
    then show ?thesis
    proof cases
      case 1
      from split_on_head [of cs sep] ws obtain post where "cs = w @ post" by auto
      with 1 have "c # cs = [] @ l @ post" by simp
      then show ?thesis by blast
    next
      case 2
      with ws have "l \<in> set (split_on sep cs)" by simp
      from Cons.IH [OF this] obtain pre post where "cs = pre @ l @ post" by blast
      then have "c # cs = (c # pre) @ l @ post" by simp
      then show ?thesis by blast
    qed
  qed
qed

lemma split_on_contains: "l \<in> set (split_on sep s) \<Longrightarrow> contains l s"
  using split_on_part [of l sep s] by (simp add: contains_append)

lemma learned_route_network:
  assumes "l \<in> set (learned_routes out)" and "route_network l = Some p"
  shows "contains p out"
proof -
  from assms(1) have "l \<in> set (split_on newline out)" by (simp add: learned_routes_def)
  then have 1: "contains l out" by (rule split_on_contains)
  from assms(2) have "2 \<le> length (split_ws l)" and "p = split_ws l ! 1"
    by (auto simp: route_network_def Let_def split: if_splits)
  then have "p \<in> set (split_ws l)" by simp
  then have "contains p l" by (rule split_ws_part)
  with 1 show ?thesis by (rule contains_trans [rotated])
qed

section \<open>Counting occurrences line by line\<close>

lemma startswith_length: "startswith s p \<Longrightarrow> length p \<le> length s"
  by (auto simp: startswith_append)

lemma startswith_before_sep:
  assumes "sep \<notin> set sub"
  shows "startswith (a @ sep # b) sub \<longleftrightarrow> startswith a sub"
  using assms
proof (induction a sub rule: startswith.induct)
  case (1 s)
  show ?case by simp
next
  case (2 p ps)
  then show ?case by auto
next
  case (3 c cs p ps)
  then show ?case by auto
qed

lemma count_sub_sep:
  assumes "sub \<noteq> []" and "sep \<notin> set sub"
  shows "count_sub sub (a @ sep # b) = count_sub sub a + count_sub sub b"
  using assms
proof (induction sub a rule: count_sub.induct)
  case (1 sub)
  then have "\<not> startswith (sep # b) sub" by (cases sub) auto
  with 1 show ?case by simp
next
  case (2 sub c cs)
  show ?case
  proof (cases "startswith (c # cs) sub")
    case True
    then have len: "length sub - 1 \<le> length cs"
      using startswith_length [of "c # cs" sub] by simp
    from True have st: "startswith ((c # cs) @ sep # b) sub"
      using startswith_before_sep [OF "2.prems"(2)] by blast
    from "2.IH"(2) [OF "2.prems"(1) True "2.prems"] len st True "2.prems"(1)
    show ?thesis by simp
  next
    case False
    then have st: "\<not> startswith ((c # cs) @ sep # b) sub"
      using startswith_before_sep [OF "2.prems"(2)] by blast
    from "2.IH"(3) [OF "2.prems"(1) False "2.prems"] st False "2.prems"(1)
    show ?thesis by simp
  qed
qed

lemma count_sub_lines_aux:
  assumes "sub \<noteq> []" and "sep \<notin> set sub"
  shows "sep \<notin> set p \<Longrightarrow>
    count_sub sub (p @ s) =
      count_sub sub (p @ hd (split_on sep s)) + sum_list (map (count_sub sub) (tl (split_on sep s)))"
proof (induction s arbitrary: p)
  case Nil
  show ?case by simp
next
  case (Cons c cs)
  obtain w ws where ws: "split_on sep cs = w # ws"
    using split_on_nonempty [of sep cs] by (cases "split_on sep cs") auto
  show ?case
  proof (cases "c = sep")
    case True
    have "count_sub sub cs = count_sub sub w + sum_list (map (count_sub sub) ws)"
      using Cons.IH [of "[]"] ws by simp
    with True ws show ?thesis
      by (simp add: count_sub_sep [OF assms])
  next
    case False
    with Cons.prems have "sep \<notin> set (p @ [c])" by simp
    from Cons.IH [OF this] False ws show ?thesis by simp
  qed
qed

lemma count_sub_lines:
  assumes "sub \<noteq> []" and "sep \<notin> set sub"
  shows "count_sub sub s = sum_list (map (count_sub sub) (split_on sep s))"
proof -
  obtain w ws where ws: "split_on sep s = w # ws"
    using split_on_nonempty [of sep s] by (cases "split_on sep s") auto
  from count_sub_lines_aux [OF assms, of "[]" s] ws show ?thesis by simp
qed

lemma contains_count_sub: "sub \<noteq> [] \<Longrightarrow> contains sub s \<Longrightarrow> 1 \<le> count_sub sub s"
proof (induction sub s rule: count_sub.induct)
  case (1 sub)
  then show ?case by simp
next
  case (2 sub c cs)
  show ?case
  proof (cases "startswith (c # cs) sub")
    case True
    with "2.prems"(1) count_sub_nonneg [of sub "drop (length sub - 1) cs"]
    show ?thesis by simp
  next
    case False
    with "2.prems" have "contains sub cs" by simp
    from "2.IH"(3) [OF "2.prems"(1) False "2.prems"(1) this] False "2.prems"(1)
    show ?thesis by simp
  qed
qed

lemma strip_part: "\<exists>pre post. s = pre @ strip s @ post"
proof -
  let ?d = "dropWhile is_space s"
  have "s = takeWhile is_space s @ ?d" by simp
  moreover have "rev ?d = takeWhile is_space (rev ?d) @ dropWhile is_space (rev ?d)" by simp
  then have "?d = rev (dropWhile is_space (rev ?d)) @ rev (takeWhile is_space (rev ?d))"
    by (metis rev_append rev_rev_ident)
  ultimately have "s = takeWhile is_space s @ strip s @ rev (takeWhile is_space (rev ?d))"
    by (simp add: strip_def)
  then show ?thesis by blast
qed

lemma startswith_strip_contains: "startswith (strip l) sub \<Longrightarrow> contains sub l"
proof -
  assume "startswith (strip l) sub"
  then obtain q where q: "strip l = sub @ q" by (auto simp: startswith_append)
  from strip_part [of l] obtain pre post where "l = pre @ strip l @ post" by blast
  with q have "l = pre @ sub @ (q @ post)" by simp
  then show ?thesis unfolding contains_append by blast
qed

lemma filter_le_sum:
  "(\<And>x. x \<in> set xs \<Longrightarrow> 0 \<le> f x) \<Longrightarrow> (\<And>x. x \<in> set xs \<Longrightarrow> P x \<Longrightarrow> 1 \<le> f x) \<Longrightarrow>
   int (length (filter P xs)) \<le> sum_list (map f xs)"
proof (induction xs)
  case Nil
  show ?case by simp
next
  case (Cons x xs)
  have "int (length (filter P xs)) \<le> sum_list (map f xs)"
    using Cons by simp
  moreover have "0 \<le> f x" using Cons.prems(1) by simp
  moreover have "P x \<Longrightarrow> 1 \<le> f x" using Cons.prems(2) by simp
  ultimately show ?case by auto
qed

lemma learned_routes_le_count:
  "int (length (learned_routes out)) \<le> count_sub ''*>'' out"
proof -
  have "count_sub ''*>'' out = sum_list (map (count_sub ''*>'') (split_on newline out))"
    by (rule count_sub_lines) simp_all
  moreover have "int (length (filter (\<lambda>l. startswith (strip l) ''*>'') (split_on newline out)))
      \<le> sum_list (map (count_sub ''*>'') (split_on newline out))"
    by (rule filter_le_sum)
      (simp_all add: count_sub_nonneg contains_count_sub startswith_strip_contains)
  ultimately show ?thesis by (simp add: learned_routes_def)
qed

section \<open>Detection of the hijacked prefix\<close>

text \<open>
  C2 (as amended). For every cycle and every container other than \<open>as300\<close>, the
  cycle emits exactly one \<open>prefix_hijack\<close> event naming that container and
  \<open>8.8.8.0/24\<close> if and only if the container is listed as running and its route
  query returns, with code 0, a text in which \<open>8.8.8.0/24\<close> occurs anywhere, on a
  best-path line or not; otherwise it emits none for that container. In particular a
  best-path line whose network field is \<open>8.8.8.0/24\<close> yields exactly one event.
\<close>

theorem hijack_detection:
  "c \<in> set containers_list \<Longrightarrow> c \<noteq> ''as300'' \<Longrightarrow>
   filter (\<lambda>a. target a = c) (attacks (collect_network_data env)) =
     (if c \<in> set (running_containers env) \<and>
         (\<exists>out. route_output env c = Some out \<and> contains ''8.8.8.0/24'' out)
      then [\<lparr>attack_type = ''prefix_hijack'', target = c, network = ''8.8.8.0/24''\<rparr>]
      else [])
   \<and> (c \<in> set (running_containers env) \<and> route_output env c = Some out \<and>
       l \<in> set (learned_routes out) \<and> route_network l = Some ''8.8.8.0/24'' \<longrightarrow>
       filter (\<lambda>a. target a = c) (attacks (collect_network_data env)) =
         [\<lparr>attack_type = ''prefix_hijack'', target = c, network = ''8.8.8.0/24''\<rparr>])"
proof -
  assume c: "c \<in> set containers_list" and n: "c \<noteq> ''as300''"
  have 1: "filter (\<lambda>a. target a = c) (attacks (collect_network_data env)) =
     (if c \<in> set (running_containers env) \<and>
         (\<exists>out. route_output env c = Some out \<and> contains ''8.8.8.0/24'' out)
      then [\<lparr>attack_type = ''prefix_hijack'', target = c, network = ''8.8.8.0/24''\<rparr>]
      else [])"
    using c n
    by (auto simp: collect_attacks_of new_attacks_def prefix_seen_def hijack_event_def
        split: option.splits)
  have 2: "contains ''8.8.8.0/24'' out"
    if "l \<in> set (learned_routes out)" "route_network l = Some ''8.8.8.0/24''"
    using that by (rule learned_route_network)
  from 1 2 show ?thesis by auto
qed

theorem hijack_detection_witness:
  "''as500'' \<in> set containers_list \<and> ''as500'' \<noteq> ''as300''
   \<and> ''as500'' \<in> set (running_containers env_hijack)
   \<and> route_output env_hijack ''as500'' = Some ''*> 8.8.8.0/24 0.0.0.0 0 32768 i''
   \<and> ''*> 8.8.8.0/24 0.0.0.0 0 32768 i'' \<in> set (learned_routes ''*> 8.8.8.0/24 0.0.0.0 0 32768 i'')
   \<and> route_network ''*> 8.8.8.0/24 0.0.0.0 0 32768 i'' = Some ''8.8.8.0/24''
   \<and> filter (\<lambda>a. target a = ''as500'') (attacks (collect_network_data env_hijack)) =
       [\<lparr>attack_type = ''prefix_hijack'', target = ''as500'', network = ''8.8.8.0/24''\<rparr>]"
proof -
  have h: "''as500'' \<in> set containers_list" "''as500'' \<noteq> ''as300''"
    by (simp_all add: containers_list_def)
  have g: "''as500'' \<in> set (running_containers env_hijack)"
    "route_output env_hijack ''as500'' = Some ''*> 8.8.8.0/24 0.0.0.0 0 32768 i''"
    "''*> 8.8.8.0/24 0.0.0.0 0 32768 i'' \<in> set (learned_routes ''*> 8.8.8.0/24 0.0.0.0 0 32768 i'')"
    "route_network ''*> 8.8.8.0/24 0.0.0.0 0 32768 i'' = Some ''8.8.8.0/24''"
    by code_simp+
  from hijack_detection [OF h, of env_hijack "''*> 8.8.8.0/24 0.0.0.0 0 32768 i''"
      "''*> 8.8.8.0/24 0.0.0.0 0 32768 i''"] h g
  show ?thesis by blast
qed

text \<open>
  C2 (as stated) fails: \<open>as500\<close> reports \<open>8.8.8.0/24\<close> on a line that is not marked
  best-path, its route table has no best-path line at all, and the cycle emits a
  \<open>prefix_hijack\<close> event for \<open>as500\<close>.
\<close>

theorem hijack_detection_counterexample:
  "route_output env_not_best ''as500'' = Some ''*  8.8.8.0/24 172.20.0.30 0 65300 i''
   \<and> learned_routes ''*  8.8.8.0/24 172.20.0.30 0 65300 i'' = []
   \<and> filter (\<lambda>a. target a = ''as500'') (attacks (collect_network_data env_not_best)) =
       [\<lparr>attack_type = ''prefix_hijack'', target = ''as500'', network = ''8.8.8.0/24''\<rparr>]"
  by code_simp

section \<open>Route counts\<close>

text \<open>
  C5 (as amended). The route list of \<open>working_attack_simulator.py\<close> has exactly one
  entry per line whose stripped text begins with \<open>*>\<close>. The route count of the
  dashboard is the number of occurrences of \<open>*>\<close> anywhere in the text, which is
  never less than the number of those lines. Both depend on the text alone.
\<close>

theorem route_counts:
  "learned_routes out = filter (\<lambda>l. startswith (strip l) ''*>'') (split_on newline out)
   \<and> (c \<in> set containers_list \<and> c \<in> set (running_containers env) \<and>
       route_output env c = Some out \<longrightarrow>
       map_option routes (containers (collect_network_data env) c) = Some (count_sub ''*>'' out))
   \<and> int (length (learned_routes out)) \<le> count_sub ''*>'' out"
  by (simp add: learned_routes_le_count collect_containers container_entry_def)
    (simp add: learned_routes_def)

theorem route_counts_witness:
  "''as100'' \<in> set containers_list \<and> ''as100'' \<in> set (running_containers env_quiet)
   \<and> route_output env_quiet ''as100'' = Some ''*> 10.100.0.0/24 0.0.0.0 0 32768 i''
   \<and> map_option routes (containers (collect_network_data env_quiet) ''as100'') = Some 1
   \<and> length (learned_routes ''*> 10.100.0.0/24 0.0.0.0 0 32768 i'') = 1"
proof -
  have g: "''as100'' \<in> set containers_list" "''as100'' \<in> set (running_containers env_quiet)"
    "route_output env_quiet ''as100'' = Some ''*> 10.100.0.0/24 0.0.0.0 0 32768 i''"
    "count_sub ''*>'' ''*> 10.100.0.0/24 0.0.0.0 0 32768 i'' = 1"
    "length (learned_routes ''*> 10.100.0.0/24 0.0.0.0 0 32768 i'') = 1"
    by code_simp+
  from route_counts [of "''*> 10.100.0.0/24 0.0.0.0 0 32768 i''" "''as100''" env_quiet] g
  show ?thesis by simp
qed

text \<open>
  C5 (as stated) fails for the dashboard: the route table of \<open>as100\<close> is one line,
  which begins with the marker, and the route count stored for \<open>as100\<close> is 2.
\<close>

theorem route_counts_counterexample:
  "route_output env_two_markers ''as100'' = Some ''*> 10.100.0.0/24 0.0.0.0 *> i''
   \<and> filter (\<lambda>l. startswith l ''*>'') (split_on newline ''*> 10.100.0.0/24 0.0.0.0 *> i'')
       = [''*> 10.100.0.0/24 0.0.0.0 *> i'']
   \<and> map_option routes (containers (collect_network_data env_two_markers) ''as100'') = Some 2"
  by code_simp

section \<open>A container whose queries fail\<close>












section \<open>Link colours\<close>

lemma snd_count_sessions_pos:
  "0 < snd (count_sessions out) \<longleftrightarrow>
     list_ex (\<lambda>l. neighbor_line l \<and> \<not> policy_hold l) (split_on newline (strip out))"
  by (simp add: count_sessions_filter list_ex_iff filter_empty_conv)

lemma get_established_collect:
  "c \<in> set containers_list \<Longrightarrow>
   0 < get_established (bgp_sessions (collect_network_data env)) c \<longleftrightarrow> has_established env c"
  by (auto simp: get_established_def collect_sessions session_entry_def has_established_def
      summary_output_def snd_count_sessions_pos split: run_result.splits option.splits)

lemma get_status_entry:
  "get_status (\<lambda>x. if x \<in> set containers_list
                    then Some (container_entry env running x) else None) c = Some ''running''
   \<longleftrightarrow> c \<in> set containers_list \<and> c \<in> set running"
  by (simp add: get_status_def container_entry_def)

text \<open>
  C4 (as amended). For two containers of the list, the main dashboard draws the link
  green exactly when each of them is listed as running and its summary query
  returned, with code 0, a text with at least one line counted as established; the
  peers of those sessions are not looked at. The simple dashboard draws it green
  exactly when both containers are listed as running.
\<close>

theorem link_colour:
  "src \<in> set containers_list \<Longrightarrow> dst \<in> set containers_list \<Longrightarrow>
   (edge_color (bgp_sessions (collect_network_data env)) src dst = ''green'') =
     (has_established env src \<and> has_established env dst)
   \<and> (case update_data env of
        None \<Rightarrow> True
      | Some (container_data, bgp_data, attacks_list) \<Rightarrow>
          (edge_color_simple container_data src dst = ''green'') =
            (src \<in> set (running_containers env) \<and> dst \<in> set (running_containers env)))"
proof -
  assume s: "src \<in> set containers_list" and d: "dst \<in> set containers_list"
  have 1: "(edge_color (bgp_sessions (collect_network_data env)) src dst = ''green'') =
     (has_established env src \<and> has_established env dst)"
    using get_established_collect [OF s, of env] get_established_collect [OF d, of env]
    by (simp add: edge_color_def)
  have 2: "case update_data env of
        None \<Rightarrow> True
      | Some (container_data, bgp_data, attacks_list) \<Rightarrow>
          (edge_color_simple container_data src dst = ''green'') =
            (src \<in> set (running_containers env) \<and> dst \<in> set (running_containers env))"
  proof (cases "docker_ps env")
    case Raised
    then show ?thesis by (simp add: update_data_raised)
  next
    case (Completed returncode stdout)
    show ?thesis
      using s d
      by (simp add: update_data_completed [OF Completed] edge_color_simple_def get_status_entry)
  qed
  from 1 2 show ?thesis by blast
qed

theorem link_colour_witness:
  "''as100'' \<in> set containers_list \<and> ''as200'' \<in> set containers_list
   \<and> has_established env_peers ''as100'' \<and> has_established env_peers ''as200''
   \<and> edge_color (bgp_sessions (collect_network_data env_peers)) ''as100'' ''as200'' = ''green''"
proof -
  have h: "''as100'' \<in> set containers_list" "''as200'' \<in> set containers_list"
    by (simp_all add: containers_list_def)
  have g: "has_established env_peers ''as100''" "has_established env_peers ''as200''"
    by code_simp+
  from link_colour [OF h, of env_peers] h g show ?thesis by simp
qed

text \<open>
  C4 (as stated) fails: \<open>as100\<close> reports one established session, with
  \<open>172.20.0.40\<close>, and \<open>as200\<close> one, with \<open>172.20.0.30\<close>; neither reports the other's
  address (\<open>172.20.0.20\<close>, \<open>172.20.0.10\<close>) as a peer, and the link between them is
  drawn green.
\<close>

theorem link_colour_counterexample:
  "map_option established_peers (summary_output env_peers ''as100'') = Some [''172.20.0.40'']
   \<and> map_option established_peers (summary_output env_peers ''as200'') = Some [''172.20.0.30'']
   \<and> as_ips ''as100'' = Some ''172.20.0.10'' \<and> as_ips ''as200'' = Some ''172.20.0.20''
   \<and> \<not> peered_by_address env_peers ''as100'' ''as200''
   \<and> (''as100'', ''as200'') \<in> set edges
   \<and> edge_color (bgp_sessions (collect_network_data env_peers)) ''as100'' ''as200'' = ''green''"
  by code_simp

section \<open>The loop of the collection thread\<close>

lemma run_until_stop:
  "(\<forall>j<k. running (i + j)) \<Longrightarrow> \<not> running (i + k) \<Longrightarrow> k < fuel \<Longrightarrow>
   run fuel running attempts i =
     Some (concat (map (\<lambda>j. run_cycle (attempts j)) [i..<i + k]))"
proof (induction k arbitrary: i fuel)
  case 0
  then obtain f where "fuel = Suc f" by (cases fuel) auto
  with 0 show ?case by simp
next
  case (Suc k)
  from Suc.prems(3) obtain f where f: "fuel = Suc f" and kf: "k < f" by (cases fuel) auto
  from Suc.prems(1) have r0: "running i" by (metis add.right_neutral zero_less_Suc)
  have "\<forall>j<k. running (Suc i + j)"
  proof (intro allI impI)
    fix j assume "j < k"
    then have "Suc j < Suc k" by simp
    with Suc.prems(1) have "running (i + Suc j)" by blast
    then show "running (Suc i + j)" by simp
  qed
  moreover from Suc.prems(2) have "\<not> running (Suc i + k)" by simp
  ultimately have ih: "run f running attempts (Suc i) =
     Some (concat (map (\<lambda>j. run_cycle (attempts j)) [Suc i..<Suc i + k]))"
    using kf by (rule Suc.IH)
  have e: "[i..<i + Suc k] = i # [Suc i..<Suc i + k]"
    using upt_conv_Cons [of i "i + Suc k"] by (simp del: upt_Suc)
  show ?case unfolding e f using r0 ih by simp
qed

lemma run_forever: "(\<forall>j. running j) \<Longrightarrow> run fuel running attempts i = None"
  by (induction fuel arbitrary: i) simp_all

text \<open>
  C7. A cycle whose collection raises an \<open>Exception\<close> prints the error, emits
  nothing, and sleeps 5 seconds where a good cycle sleeps 2. The loop leaves the
  \<open>while\<close> only when it reads \<open>self.running\<close> as false: if that first happens at the
  top of iteration \<open>k\<close>, then with enough fuel the run is exactly the \<open>k\<close> cycles
  before it, raising or not; and while \<open>self.running\<close> stays true the loop never
  returns, whatever the cycles raise.
\<close>

theorem loop_survives_errors:
  "run_cycle (Raises e) = [Print (''Data collection error: '' @ e), Sleep 5]
   \<and> run_cycle (Returns d) = [Emit d, Sleep 2]
   \<and> (2::nat) < 5
   \<and> ((\<forall>j<k. running j) \<and> \<not> running k \<and> k < fuel \<longrightarrow>
        run fuel running attempts 0 =
          Some (concat (map (\<lambda>j. run_cycle (attempts j)) [0..<k])))
   \<and> ((\<forall>j. running j) \<longrightarrow> run fuel running attempts 0 = None)"
  using run_until_stop [of k running 0 fuel attempts] run_forever [of running fuel attempts 0]
  by simp

theorem loop_survives_errors_witness:
  "stop_at_three 0 \<and> stop_at_three 1 \<and> stop_at_three 2 \<and> \<not> stop_at_three 3
   \<and> run 4 stop_at_three second_raises 0 =
       Some [Emit (collect_network_data env_quiet), Sleep 2,
             Print ''Data collection error: boom'', Sleep 5,
             Emit (collect_network_data env_quiet), Sleep 2]"
proof -
  have h: "(\<forall>j<3. stop_at_three j) \<and> \<not> stop_at_three 3 \<and> (3::nat) < 4"
    by (simp add: stop_at_three_def)
  have u: "[0..<3] = [0, 1, 2]" by (simp add: upt_rec)
  from loop_survives_errors [of "''boom''" "collect_network_data env_quiet" 3 stop_at_three 4
      second_raises] h
  have "run 4 stop_at_three second_raises 0 =
          Some (concat (map (\<lambda>j. run_cycle (second_raises j)) [0..<3]))"
    by blast
  then show ?thesis by (simp add: u second_raises_def stop_at_three_def)
qed

end
